theory Spec2Isabelle
  imports Complex_Main "HOL-Library.Multiset" "HOL-Library.Word"
begin

section \<open>The platform: strings, URL, RegExp and the clock\<close>

text \<open>
  A JavaScript string is a sequence of 16-bit code units, and \<open>length\<close>, \<open>substring\<close>,
  \<open>includes\<close> and a regular expression without the \<open>u\<close> flag all work on code units.
  \<open>str\<close> turns a literal of ASCII text into such a string. The \<open>\s\<close> class of a regular
  expression holds the white space and line terminator code units listed in \<open>isSpace\<close>.
\<close>

type_synonym code_unit = "16 word"

type_synonym jsstring = "code_unit list"

definition str :: "string \<Rightarrow> jsstring" where
  "str s = map of_char s"

definition isSpace :: "code_unit \<Rightarrow> bool" where
  "isSpace c =
     (c \<in> set [0x9, 0xA, 0xB, 0xC, 0xD, 0x20, 0xA0, 0x1680,
               0x2000, 0x2001, 0x2002, 0x2003, 0x2004, 0x2005, 0x2006, 0x2007, 0x2008, 0x2009,
               0x200A, 0x2028, 0x2029, 0x202F, 0x205F, 0x3000, 0xFEFF])"

text \<open>\<open>s.substring(a, b)\<close>: the arguments are swapped when \<open>a > b\<close> and clamped to the length.\<close>

definition substring :: "jsstring \<Rightarrow> nat \<Rightarrow> nat \<Rightarrow> jsstring" where
  "substring s a b = (let lo = min a b; hi = max a b in take (hi - lo) (drop lo s))"

fun startsWith :: "jsstring \<Rightarrow> jsstring \<Rightarrow> bool" where
  "startsWith s [] = True"
| "startsWith [] (k # ks) = False"
| "startsWith (c # cs) (k # ks) = (c = k \<and> startsWith cs ks)"

text \<open>\<open>s.includes(k)\<close>: \<open>k\<close> occurs in \<open>s\<close> as a contiguous run.\<close>

fun includes_str :: "jsstring \<Rightarrow> jsstring \<Rightarrow> bool" where
  "includes_str [] k = (k = [])"
| "includes_str (c # cs) k = (startsWith (c # cs) k \<or> includes_str cs k)"

text \<open>
  \<open>s.split(/\s+/)\<close>: the pieces between maximal runs of white space. A string that starts
  or ends with white space yields an empty first or last piece, and the empty string yields
  one empty piece. \<open>cur\<close> is the piece being read, reversed; \<open>inws\<close> tells that the last
  code unit was white space.
\<close>

fun split_go :: "jsstring \<Rightarrow> jsstring \<Rightarrow> bool \<Rightarrow> jsstring list" where
  "split_go [] cur inws = [rev cur]"
| "split_go (c # cs) cur inws =
     (if isSpace c then (if inws then split_go cs [] True else rev cur # split_go cs [] True)
      else split_go cs (c # cur) False)"

definition split_ws :: "jsstring \<Rightarrow> jsstring list" where
  "split_ws s = split_go s [] False"

text \<open>The decimal text of a number, as a template literal renders an integer.\<close>

definition digit_char :: "nat \<Rightarrow> code_unit" where
  "digit_char d = of_nat (48 + d)"

function string_of_nat :: "nat \<Rightarrow> jsstring" where
  "string_of_nat n =
     (if n < 10 then [digit_char n] else string_of_nat (n div 10) @ [digit_char (n mod 10)])"
  by pat_completeness auto
termination
  by (relation "measure (\<lambda>n. n)") auto

declare string_of_nat.simps [simp del]

definition string_of_int :: "int \<Rightarrow> jsstring" where
  "string_of_int i = (if i < 0 then 0x2D # string_of_nat (nat (- i)) else string_of_nat (nat i))"

text \<open>
  \<open>new URL(s)\<close>, \<open>new RegExp(s)\<close> and \<open>s.toLowerCase()\<close> belong to the browser, not to
  the repository: they are parameters of the model. The two constructors either throw or
  return their object; of a URL the cache reads \<open>hostname\<close> and \<open>pathname\<close>, and a regular
  expression is kept as its source text, since the cache never evaluates it. \<open>toLowerCase\<close>
  follows the case tables of Unicode: it need not keep the length of a string (the one code
  unit U+0130 becomes the two code units U+0069 U+0307), and nothing is assumed about it.
\<close>

datatype js_error = TypeError | SyntaxError

record url =
  hostname :: jsstring
  pathname :: jsstring

datatype regexp = RegExp jsstring

record platform =
  URL_new :: "jsstring \<Rightarrow> js_error + url"
  RegExp_new :: "jsstring \<Rightarrow> js_error + regexp"
  toLowerCase :: "jsstring \<Rightarrow> jsstring"

text \<open>
  \<open>Date.now()\<close> and \<open>new Date()\<close> read the clock. The clock is the sequence of the readings
  still to come, in milliseconds: a read takes reading 0 and moves the sequence on by one.
\<close>

type_synonym clock = "nat \<Rightarrow> int"

definition advance :: "clock \<Rightarrow> clock" where
  "advance clk = (\<lambda>n. clk (Suc n))"

section \<open>The cache\<close>

text \<open>
  The fields of a cached pattern, with the \<open>number\<close>s of the source told apart: the two
  counts are natural numbers, a \<open>Date\<close> is its time value in milliseconds, an integer, and
  the confidence is a real number, so that the arithmetic of \<open>updatePatternConfidence\<close> is
  exact. The field \<open>id\<close> is called \<open>id_str\<close> here. The actions are opaque: any type
  \<open>'a\<close>. The cache object holds the map from keys to pattern lists, in the order of the
  array, together with the clock it reads.
\<close>

record 'a CachedActionPattern =
  id_str :: jsstring
  pattern :: jsstring
  urlPattern :: regexp
  taskKeywords :: "jsstring list"
  actions :: "'a list"
  successCount :: nat
  failureCount :: nat
  lastUsed :: int
  confidence :: real

record 'a ActionPatternCache =
  cache :: "jsstring \<rightharpoonup> 'a CachedActionPattern list"
  clock :: clock

definition maxCacheSize :: nat where
  "maxCacheSize = 100"

definition confidenceThreshold :: real where
  "confidenceThreshold = 0.85"

definition ttl :: int where
  "ttl = 5 * 60 * 1000"

definition getCacheKey :: "platform \<Rightarrow> jsstring \<Rightarrow> jsstring" where
  "getCacheKey P u =
     (case URL_new P u of
        Inr urlObj \<Rightarrow> substring (hostname urlObj @ pathname urlObj) 0 100
      | Inl e \<Rightarrow> substring u 0 100)"

definition extractKeywords :: "platform \<Rightarrow> jsstring \<Rightarrow> jsstring list" where
  "extractKeywords P text =
     take 5 (filter (\<lambda>word. length word > 3) (split_ws (toLowerCase P text)))"

definition urlToPattern :: "platform \<Rightarrow> jsstring \<Rightarrow> jsstring" where
  "urlToPattern P u =
     (case URL_new P u of
        Inr urlObj \<Rightarrow> hostname urlObj @ substring (pathname urlObj) 0 50
      | Inl e \<Rightarrow> substring u 0 50)"

text \<open>
  The \<open>find\<close> of \<open>getCachedActions\<close>: the index of the first pattern that has a keyword
  inside the lower-cased task, a confidence above the threshold and an age below the time to
  live. \<open>&&\<close> evaluates from the left, so the clock is read only for a pattern that passes
  the first two tests.
\<close>

fun findMatch :: "jsstring \<Rightarrow> 'a CachedActionPattern list \<Rightarrow> clock \<Rightarrow> nat option \<times> clock" where
  "findMatch keyword [] clk = (None, clk)"
| "findMatch keyword (p # ps) clk =
     (if list_ex (\<lambda>k. includes_str keyword k) (taskKeywords p) \<and> confidence p > confidenceThreshold
      then (if clk 0 - lastUsed p < ttl then (Some 0, advance clk)
            else (case findMatch keyword ps (advance clk) of (r, clk') \<Rightarrow> (map_option Suc r, clk')))
      else (case findMatch keyword ps clk of (r, clk') \<Rightarrow> (map_option Suc r, clk')))"

definition getCachedActions ::
  "platform \<Rightarrow> 'a ActionPatternCache \<Rightarrow> jsstring \<Rightarrow> jsstring \<Rightarrow> 'a list option \<times> 'a ActionPatternCache" where
  "getCachedActions P this u taskDescription =
     (case cache this (getCacheKey P u) of
        None \<Rightarrow> (None, this)
      | Some patterns \<Rightarrow>
          (case findMatch (toLowerCase P taskDescription) patterns (clock this) of
             (None, clk) \<Rightarrow> (None, this\<lparr>clock := clk\<rparr>)
           | (Some i, clk) \<Rightarrow>
               (Some (actions (patterns ! i)),
                this\<lparr>cache := (cache this)(getCacheKey P u \<mapsto>
                         patterns[i := (patterns ! i)\<lparr>lastUsed := clk 0\<rparr>]),
                     clock := advance clk\<rparr>)))"

text \<open>
  \<open>cacheSuccessfulPattern\<close> builds the object literal field by field: \<open>Date.now()\<close> for
  the id, the label (\<open>pattern || ...\<close>: a missing or empty label is replaced, and
  \<open>keywords[0]\<close> of an empty array renders as \<open>undefined\<close>), \<open>new RegExp\<close>, which may
  throw before anything is stored, then \<open>new Date()\<close>. The new pattern is pushed, and a list
  longer than \<open>maxCacheSize\<close> is sorted by falling confidence (the sort is stable) and loses
  its last element.
\<close>

definition cacheSuccessfulPattern ::
  "platform \<Rightarrow> 'a ActionPatternCache \<Rightarrow> jsstring \<Rightarrow> jsstring \<Rightarrow> 'a list \<Rightarrow> jsstring option
     \<Rightarrow> (js_error + unit) \<times> 'a ActionPatternCache" where
  "cacheSuccessfulPattern P this u taskDescription acts label =
     (let key = getCacheKey P u;
          patterns = (case cache this key of None \<Rightarrow> [] | Some ps \<Rightarrow> ps);
          keywords = extractKeywords P taskDescription;
          t_id = clock this 0;
          clk1 = advance (clock this);
          name = (case label of
                    Some l \<Rightarrow> if l \<noteq> [] then l
                              else (str ''pattern_'') @ (case keywords of [] \<Rightarrow> (str ''undefined'') | k # ks \<Rightarrow> k)
                  | None \<Rightarrow> (str ''pattern_'') @ (case keywords of [] \<Rightarrow> (str ''undefined'') | k # ks \<Rightarrow> k))
      in case RegExp_new P (urlToPattern P u) of
           Inl e \<Rightarrow> (Inl e, this\<lparr>clock := clk1\<rparr>)
         | Inr re \<Rightarrow>
             (let newPattern =
                    \<lparr>id_str = key @ (str ''_'') @ string_of_int t_id,
                     pattern = name,
                     urlPattern = re,
                     taskKeywords = keywords,
                     actions = acts,
                     successCount = 1,
                     failureCount = 0,
                     lastUsed = clk1 0,
                     confidence = 0.85\<rparr>;
                  pushed = patterns @ [newPattern];
                  kept = (if length pushed > maxCacheSize
                          then butlast (sort_key (\<lambda>p. - confidence p) pushed)
                          else pushed)
              in (Inr (), this\<lparr>cache := (cache this)(key \<mapsto> kept), clock := advance clk1\<rparr>)))"

fun findIndex :: "('a \<Rightarrow> bool) \<Rightarrow> 'a list \<Rightarrow> nat option" where
  "findIndex f [] = None"
| "findIndex f (x # xs) = (if f x then Some 0 else map_option Suc (findIndex f xs))"

definition updatePatternConfidence ::
  "platform \<Rightarrow> 'a ActionPatternCache \<Rightarrow> jsstring \<Rightarrow> jsstring \<Rightarrow> bool \<Rightarrow> 'a ActionPatternCache" where
  "updatePatternConfidence P this u label success =
     (let key = getCacheKey P u
      in case cache this key of
           None \<Rightarrow> this
         | Some patterns \<Rightarrow>
             (case findIndex (\<lambda>x. pattern x = label) patterns of
                None \<Rightarrow> this
              | Some i \<Rightarrow>
                  (let p = patterns ! i;
                       p1 = (if success then p\<lparr>successCount := successCount p + 1\<rparr>
                             else p\<lparr>failureCount := failureCount p + 1\<rparr>);
                       totalAttempts = successCount p1 + failureCount p1;
                       successRate = real (successCount p1) / real totalAttempts;
                       timeSinceUsed = clock this 0 - lastUsed p1;
                       decayFactor = exp (- real_of_int timeSinceUsed / (24 * 60 * 60 * 1000));
                       p2 = p1\<lparr>confidence := successRate * (0.5 + 0.5 * decayFactor)\<rparr>
                   in this\<lparr>cache := (cache this)(key \<mapsto> patterns[i := p2]),
                           clock := advance (clock this)\<rparr>)))"

definition clearUrlCache :: "platform \<Rightarrow> 'a ActionPatternCache \<Rightarrow> jsstring \<Rightarrow> 'a ActionPatternCache" where
  "clearUrlCache P this u = this\<lparr>cache := (cache this)(getCacheKey P u := None)\<rparr>"

definition clearAll :: "'a ActionPatternCache \<Rightarrow> 'a ActionPatternCache" where
  "clearAll this = this\<lparr>cache := Map.empty\<rparr>"

section \<open>Sequences of calls\<close>

text \<open>
  The constructor leaves the map empty. A caller issues the public operations one after the
  other; a call that throws leaves the map as it was (only the clock has moved).
\<close>

definition new_ActionPatternCache :: "clock \<Rightarrow> 'a ActionPatternCache" where
  "new_ActionPatternCache clk = \<lparr>cache = Map.empty, clock = clk\<rparr>"

datatype 'a call =
    GetCachedActions jsstring jsstring
  | CacheSuccessfulPattern jsstring jsstring "'a list" "jsstring option"
  | UpdatePatternConfidence jsstring jsstring bool
  | ClearUrlCache jsstring
  | ClearAll

fun perform :: "platform \<Rightarrow> 'a ActionPatternCache \<Rightarrow> 'a call \<Rightarrow> 'a ActionPatternCache" where
  "perform P this (GetCachedActions u t) = snd (getCachedActions P this u t)"
| "perform P this (CacheSuccessfulPattern u t acts label) = snd (cacheSuccessfulPattern P this u t acts label)"
| "perform P this (UpdatePatternConfidence u label success) = updatePatternConfidence P this u label success"
| "perform P this (ClearUrlCache u) = clearUrlCache P this u"
| "perform P this ClearAll = clearAll this"

definition run :: "platform \<Rightarrow> 'a ActionPatternCache \<Rightarrow> 'a call list \<Rightarrow> 'a ActionPatternCache" where
  "run P this cs = foldl (perform P) this cs"

section \<open>A platform for closed examples\<close>

text \<open>
  The examples below need a platform to run on. This one knows a single URL, which it parses
  as the browser does, and rejects every other string; it compiles the source text of a
  regular expression when it holds none of the characters that can make the browser reject
  it; and it lower-cases A-Z, the Latin-1 capitals and U+0130 as the browser does and leaves
  every other code unit as it is.
\<close>

definition example_lower :: "code_unit \<Rightarrow> jsstring" where
  "example_lower c =
     (let n = unat c
      in if n = 0x130 then [0x69, 0x307]
         else if (0x41 \<le> n \<and> n \<le> 0x5A) \<or> (0xC0 \<le> n \<and> n \<le> 0xDE \<and> n \<noteq> 0xD7) then [c + 0x20]
         else [c])"

definition example_toLowerCase :: "jsstring \<Rightarrow> jsstring" where
  "example_toLowerCase s = concat (map example_lower s)"

definition example_platform :: platform where
  "example_platform =
     \<lparr>URL_new = (\<lambda>s. if s = str ''https://example.com/me''
                      then Inr \<lparr>hostname = str ''example.com'', pathname = str ''/me''\<rparr>
                      else Inl TypeError),
      RegExp_new = (\<lambda>s. if list_all (\<lambda>c. c \<notin> set (0x5C # str ''()[]{}*+?|'')) s
                         then Inr (RegExp s) else Inl SyntaxError),
      toLowerCase = example_toLowerCase\<rparr>"

text \<open>
  A clock that stands still, and one that reads \<open>t0\<close> for its first \<open>k\<close> readings and
  \<open>t1\<close> ever after; a page, two actions, a pattern as \<open>cacheSuccessfulPattern\<close>
  builds it for that page at time 0, and a cache that holds a list of patterns for the page.
\<close>

definition frozen_clock :: "int \<Rightarrow> clock" where
  "frozen_clock t = (\<lambda>n. t)"

definition jump_clock :: "nat \<Rightarrow> int \<Rightarrow> int \<Rightarrow> clock" where
  "jump_clock k t0 t1 = (\<lambda>n. if n < k then t0 else t1)"

definition example_url :: jsstring where
  "example_url = (str ''https://example.com/me'')"

datatype example_action = A1 | A2

definition example_pattern ::
  "jsstring \<Rightarrow> jsstring list \<Rightarrow> example_action list \<Rightarrow> int \<Rightarrow> real \<Rightarrow> example_action CachedActionPattern" where
  "example_pattern name keywords acts used conf =
     \<lparr>id_str = (str ''example.com/me_0''), pattern = name, urlPattern = RegExp (str ''example.com/me''),
      taskKeywords = keywords, actions = acts, successCount = 1, failureCount = 0,
      lastUsed = used, confidence = conf\<rparr>"

definition example_cache ::
  "example_action CachedActionPattern list \<Rightarrow> clock \<Rightarrow> example_action ActionPatternCache" where
  "example_cache ps clk = \<lparr>cache = [(str ''example.com/me'') \<mapsto> ps], clock = clk\<rparr>"

section \<open>Properties of a cache\<close>

text \<open>
  A clock that never runs backwards; a cache in which no key holds more than
  \<open>maxCacheSize\<close> patterns; and a cache in which every pattern has a confidence between 0
  and 1 and was last used no later than any reading still to come.
\<close>

definition nondecreasing :: "clock \<Rightarrow> bool" where
  "nondecreasing clk = (\<forall>n. clk n \<le> clk (Suc n))"

definition bounded :: "'a ActionPatternCache \<Rightarrow> bool" where
  "bounded this = (\<forall>k ps. cache this k = Some ps \<longrightarrow> length ps \<le> maxCacheSize)"

definition in_range :: "'a ActionPatternCache \<Rightarrow> bool" where
  "in_range this =
     (\<forall>k ps. cache this k = Some ps \<longrightarrow>
        (\<forall>p \<in> set ps. 0 \<le> confidence p \<and> confidence p \<le> 1 \<and> (\<forall>n. lastUsed p \<le> clock this n)))"

section \<open>Evaluating closed examples\<close>

lemmas ex_defs = example_platform_def example_cache_def example_pattern_def example_url_def
  frozen_clock_def jump_clock_def getCacheKey_def urlToPattern_def substring_def
  confidenceThreshold_def ttl_def maxCacheSize_def advance_def new_ActionPatternCache_def
  str_def example_toLowerCase_def example_lower_def isSpace_def split_ws_def extractKeywords_def
  string_of_int_def string_of_nat.simps digit_char_def

section \<open>Strings and keys\<close>

lemma substring_from_0: "substring s 0 n = take n s"
  by (simp add: substring_def)

lemma extractKeywords_empty_iff:
  "extractKeywords P task = [] \<longleftrightarrow> (\<forall>w \<in> set (split_ws (toLowerCase P task)). length w \<le> 3)"
  by (simp add: extractKeywords_def filter_empty_conv not_less)

lemma extractKeywords_length: "length (extractKeywords P task) \<le> 5"
  by (simp add: extractKeywords_def)

lemma extractKeywords_long: "k \<in> set (extractKeywords P task) \<Longrightarrow> 3 < length k"
  by (auto simp: extractKeywords_def dest: in_set_takeD)

text \<open>
  Claim C9. \<open>getCacheKey\<close> returns a key for every string and never throws: when the string
  parses as a URL the key is the first 100 code units of host name followed by path, and when
  it does not parse the key is the first 100 code units of the string itself. The key is never
  longer than 100.
\<close>

theorem getCacheKey_total:
  "getCacheKey P u =
     (case URL_new P u of
        Inr urlObj \<Rightarrow> take 100 (hostname urlObj @ pathname urlObj)
      | Inl e \<Rightarrow> take 100 u)
   \<and> length (getCacheKey P u) \<le> 100"
proof -
  have "\<exists>s. getCacheKey P u = take 100 s"
    by (cases "URL_new P u") (simp_all only: getCacheKey_def substring_from_0 sum.case, blast+)
  then obtain s where "getCacheKey P u = take 100 s" ..
  then have "length (getCacheKey P u) \<le> 100" by simp
  then show ?thesis
    by (simp add: getCacheKey_def substring_from_0 split: sum.split)
qed

section \<open>Looking a pattern up\<close>

lemma findMatch_index:
  "findMatch kw ps clk = (Some i, clk') \<Longrightarrow>
     i < length ps \<and> list_ex (\<lambda>k. includes_str kw k) (taskKeywords (ps ! i))
     \<and> confidenceThreshold < confidence (ps ! i) \<and> (\<exists>n. clk n - lastUsed (ps ! i) < ttl)"
proof (induction ps arbitrary: clk i clk')
  case Nil
  then show ?case by simp
next
  case (Cons p ps)
  show ?case
  proof (cases "list_ex (\<lambda>k. includes_str kw k) (taskKeywords p) \<and> confidenceThreshold < confidence p")
    case pass: True
    show ?thesis
    proof (cases "clk 0 - lastUsed p < ttl")
      case True
      with pass Cons.prems have "i = 0" by simp
      with pass True show ?thesis by auto
    next
      case False
      with pass Cons.prems obtain r where r: "findMatch kw ps (advance clk) = (Some r, clk')" and i: "i = Suc r"
        by (auto split: prod.splits)
      from Cons.IH[OF r] i show ?thesis by (auto simp: advance_def)
    qed
  next
    case False
    with Cons.prems obtain r where r: "findMatch kw ps clk = (Some r, clk')" and i: "i = Suc r"
      by (auto split: prod.splits)
    from Cons.IH[OF r] i show ?thesis by auto
  qed
qed

lemma findMatch_fst:
  "fst (findMatch kw ps clk) = Some i \<Longrightarrow>
     i < length ps \<and> list_ex (\<lambda>k. includes_str kw k) (taskKeywords (ps ! i))
     \<and> confidenceThreshold < confidence (ps ! i) \<and> (\<exists>n. clk n - lastUsed (ps ! i) < ttl)"
  using findMatch_index[of kw ps clk i "snd (findMatch kw ps clk)"] by (metis prod.collapse)

lemma getCachedActions_hit:
  assumes "fst (getCachedActions P this u task) = Some acts"
  shows "\<exists>ps i. cache this (getCacheKey P u) = Some ps
           \<and> fst (findMatch (toLowerCase P task) ps (clock this)) = Some i
           \<and> acts = actions (ps ! i)"
  using assms by (auto simp: getCachedActions_def split: option.splits prod.splits)

lemma getCachedActions_other:
  assumes "cache this (getCacheKey P u) = Some ps"
    and "fst (findMatch (toLowerCase P task) ps (clock this)) \<noteq> Some j"
  shows "\<exists>ps'. cache (snd (getCachedActions P this u task)) (getCacheKey P u) = Some ps'
           \<and> length ps' = length ps \<and> ps' ! j = ps ! j"
  using assms by (auto simp: getCachedActions_def split: option.splits prod.splits)

lemma findMatch_clock: "\<exists>m. snd (findMatch kw ps clk) = (\<lambda>n. clk (n + m))"
proof (induction ps arbitrary: clk)
  case Nil
  have "snd (findMatch kw [] clk) = (\<lambda>n. clk (n + 0))" by simp
  then show ?case by blast
next
  case (Cons p ps)
  from Cons.IH[of clk] obtain a where a: "snd (findMatch kw ps clk) = (\<lambda>n. clk (n + a))" by blast
  from Cons.IH[of "advance clk"] obtain b where "snd (findMatch kw ps (advance clk)) = (\<lambda>n. advance clk (n + b))"
    by blast
  then have b: "snd (findMatch kw ps (advance clk)) = (\<lambda>n. clk (n + Suc b))" by (simp add: advance_def)
  have one: "advance clk = (\<lambda>n. clk (n + 1))" by (simp add: advance_def)
  show ?case
  proof (cases "list_ex (\<lambda>k. includes_str kw k) (taskKeywords p) \<and> confidenceThreshold < confidence p")
    case pass: True
    show ?thesis
    proof (cases "clk 0 - lastUsed p < ttl")
      case True
      with pass one have "snd (findMatch kw (p # ps) clk) = (\<lambda>n. clk (n + 1))" by simp
      then show ?thesis by blast
    next
      case False
      with pass b have "snd (findMatch kw (p # ps) clk) = (\<lambda>n. clk (n + Suc b))"
        by (auto split: prod.splits)
      then show ?thesis by blast
    qed
  next
    case False
    with a have "snd (findMatch kw (p # ps) clk) = (\<lambda>n. clk (n + a))"
      by (auto split: prod.splits)
    then show ?thesis by blast
  qed
qed

text \<open>
  Claim C6. A pattern whose confidence is at most \<open>confidenceThreshold\<close> is never the one a
  lookup selects, whatever its keywords and however recently it was used: the lookup leaves it
  as it was, and every list of actions that the lookup returns belongs to another pattern of
  the key, one whose confidence is above the threshold.
\<close>

theorem low_confidence_never_returned:
  assumes "cache this (getCacheKey P u) = Some ps"
    and "j < length ps"
    and "confidence (ps ! j) \<le> confidenceThreshold"
  shows "fst (findMatch (toLowerCase P task) ps (clock this)) \<noteq> Some j
         \<and> (\<exists>ps'. cache (snd (getCachedActions P this u task)) (getCacheKey P u) = Some ps'
                \<and> ps' ! j = ps ! j)
         \<and> (\<forall>acts. fst (getCachedActions P this u task) = Some acts \<longrightarrow>
               (\<exists>i < length ps. i \<noteq> j \<and> confidenceThreshold < confidence (ps ! i)
                   \<and> acts = actions (ps ! i)))"
proof -
  have miss: "fst (findMatch (toLowerCase P task) ps (clock this)) \<noteq> Some j"
    using findMatch_fst[of "toLowerCase P task" ps "clock this" j] assms(3) by auto
  have kept: "\<exists>ps'. cache (snd (getCachedActions P this u task)) (getCacheKey P u) = Some ps'
                \<and> ps' ! j = ps ! j"
    using getCachedActions_other[OF assms(1) miss] by blast
  have hit: "\<exists>i < length ps. i \<noteq> j \<and> confidenceThreshold < confidence (ps ! i) \<and> acts = actions (ps ! i)"
    if "fst (getCachedActions P this u task) = Some acts" for acts
  proof -
    from getCachedActions_hit[OF that] assms(1) obtain i
      where i: "fst (findMatch (toLowerCase P task) ps (clock this)) = Some i" "acts = actions (ps ! i)"
      by auto
    from findMatch_fst[OF i(1)] miss i show ?thesis by auto
  qed
  from miss kept hit show ?thesis by blast
qed

text \<open>
  An instance: of two patterns with the same keyword the first sits exactly on the threshold,
  and the lookup returns the actions of the second.
\<close>

theorem low_confidence_never_returned_witness:
  "confidence (example_pattern (str ''low'') [(str ''github'')] [A1] 0 0.85) \<le> confidenceThreshold
   \<and> fst (findMatch (toLowerCase example_platform (str ''open my GitHub''))
            [example_pattern (str ''low'') [(str ''github'')] [A1] 0 0.85,
             example_pattern (str ''high'') [(str ''github'')] [A2] 0 0.9] (frozen_clock 1000)) \<noteq> Some 0
   \<and> fst (getCachedActions example_platform
            (example_cache [example_pattern (str ''low'') [(str ''github'')] [A1] 0 0.85,
                            example_pattern (str ''high'') [(str ''github'')] [A2] 0 0.9] (frozen_clock 1000))
            example_url (str ''open my GitHub'')) = Some [A2]"
proof -
  let ?ps = "[example_pattern (str ''low'') [(str ''github'')] [A1] 0 0.85,
              example_pattern (str ''high'') [(str ''github'')] [A2] 0 0.9]"
  let ?c = "example_cache ?ps (frozen_clock 1000)"
  have h1: "cache ?c (getCacheKey example_platform example_url) = Some ?ps"
    by (simp add: ex_defs)
  have h2: "0 < length ?ps" by simp
  have h3: "confidence (?ps ! 0) \<le> confidenceThreshold"
    by (simp add: ex_defs)
  have r: "fst (getCachedActions example_platform ?c example_url (str ''open my GitHub'')) = Some [A2]"
    by (simp add: getCachedActions_def ex_defs)
  from low_confidence_never_returned[OF h1 h2 h3, of "str ''open my GitHub''"] h3 r
  show ?thesis by simp
qed

text \<open>
  Claim C7. A pattern last used at \<open>T\<close> is not returned by a lookup all of whose clock
  readings are at or after \<open>T + ttl\<close>: the lookup does not select it and does not refresh
  it, and whatever it returns comes from another pattern, one that some reading found younger
  than the time to live. The pattern's confidence plays no part.
\<close>

theorem expired_pattern_never_returned:
  assumes "cache this (getCacheKey P u) = Some ps"
    and "j < length ps"
    and "\<forall>n. lastUsed (ps ! j) + ttl \<le> clock this n"
  shows "fst (findMatch (toLowerCase P task) ps (clock this)) \<noteq> Some j
         \<and> (\<exists>ps'. cache (snd (getCachedActions P this u task)) (getCacheKey P u) = Some ps'
                \<and> ps' ! j = ps ! j)
         \<and> (\<forall>acts. fst (getCachedActions P this u task) = Some acts \<longrightarrow>
               (\<exists>i < length ps. i \<noteq> j \<and> (\<exists>n. clock this n - lastUsed (ps ! i) < ttl)
                   \<and> acts = actions (ps ! i)))"
proof -
  have miss: "fst (findMatch (toLowerCase P task) ps (clock this)) \<noteq> Some j"
  proof
    assume "fst (findMatch (toLowerCase P task) ps (clock this)) = Some j"
    from findMatch_fst[OF this] obtain n where "clock this n - lastUsed (ps ! j) < ttl" by blast
    with assms(3) show False by (simp add: not_less[symmetric] algebra_simps)
  qed
  have kept: "\<exists>ps'. cache (snd (getCachedActions P this u task)) (getCacheKey P u) = Some ps'
                \<and> ps' ! j = ps ! j"
    using getCachedActions_other[OF assms(1) miss] by blast
  have hit: "\<exists>i < length ps. i \<noteq> j \<and> (\<exists>n. clock this n - lastUsed (ps ! i) < ttl) \<and> acts = actions (ps ! i)"
    if "fst (getCachedActions P this u task) = Some acts" for acts
  proof -
    from getCachedActions_hit[OF that] assms(1) obtain i
      where i: "fst (findMatch (toLowerCase P task) ps (clock this)) = Some i" "acts = actions (ps ! i)"
      by auto
    from findMatch_fst[OF i(1)] miss i show ?thesis by auto
  qed
  from miss kept hit show ?thesis by blast
qed

text \<open>
  An instance: at 300000 ms a pattern last used at 0 has expired; the lookup returns the
  actions of the pattern last used at 1000 and refreshes that one only.
\<close>

theorem expired_pattern_never_returned_witness:
  "lastUsed (example_pattern (str ''old'') [(str ''github'')] [A1] 0 0.95) + ttl \<le> frozen_clock 300000 0
   \<and> fst (getCachedActions example_platform
            (example_cache [example_pattern (str ''old'') [(str ''github'')] [A1] 0 0.95,
                            example_pattern (str ''new'') [(str ''github'')] [A2] 1000 0.95] (frozen_clock 300000))
            example_url (str ''open my GitHub'')) = Some [A2]
   \<and> map_option (map lastUsed)
        (cache (snd (getCachedActions example_platform
            (example_cache [example_pattern (str ''old'') [(str ''github'')] [A1] 0 0.95,
                            example_pattern (str ''new'') [(str ''github'')] [A2] 1000 0.95] (frozen_clock 300000))
            example_url (str ''open my GitHub''))) (str ''example.com/me'')) = Some [0, 300000]"
proof -
  let ?ps = "[example_pattern (str ''old'') [(str ''github'')] [A1] 0 0.95,
              example_pattern (str ''new'') [(str ''github'')] [A2] 1000 0.95]"
  let ?c = "example_cache ?ps (frozen_clock 300000)"
  have h1: "cache ?c (getCacheKey example_platform example_url) = Some ?ps"
    by (simp add: ex_defs)
  have h2: "0 < length ?ps" by simp
  have h3: "\<forall>n. lastUsed (?ps ! 0) + ttl \<le> clock ?c n"
    by (simp add: ex_defs)
  have a: "lastUsed (example_pattern (str ''old'') [(str ''github'')] [A1] 0 0.95) + ttl \<le> frozen_clock 300000 0"
    by (simp add: ex_defs)
  have r: "getCachedActions example_platform ?c example_url (str ''open my GitHub'') =
             (Some [A2], example_cache [example_pattern (str ''old'') [(str ''github'')] [A1] 0 0.95,
                            example_pattern (str ''new'') [(str ''github'')] [A2] 300000 0.95] (frozen_clock 300000))"
    by (simp add: getCachedActions_def ex_defs)
  from expired_pattern_never_returned[OF h1 h2 h3, of "str ''open my GitHub''"] a r
  show ?thesis by (simp add: example_cache_def example_pattern_def)
qed

section \<open>Storing a pattern\<close>

lemma store_throws:
  "RegExp_new P (urlToPattern P u) = Inl e \<Longrightarrow>
     cacheSuccessfulPattern P this u t acts label = (Inl e, this\<lparr>clock := advance (clock this)\<rparr>)"
  by (simp add: cacheSuccessfulPattern_def Let_def)

lemma store_returns:
  assumes "RegExp_new P (urlToPattern P u) = Inr re"
  shows "\<exists>np. taskKeywords np = extractKeywords P t \<and> actions np = acts \<and> confidence np = 0.85
            \<and> successCount np = 1 \<and> failureCount np = 0 \<and> lastUsed np = clock this 1
            \<and> cacheSuccessfulPattern P this u t acts label =
                (Inr (),
                 this\<lparr>cache := (cache this)(getCacheKey P u \<mapsto>
                          (let pushed = (case cache this (getCacheKey P u) of None \<Rightarrow> [] | Some ps \<Rightarrow> ps) @ [np]
                           in if length pushed > maxCacheSize
                              then butlast (sort_key (\<lambda>p. - confidence p) pushed) else pushed)),
                      clock := advance (advance (clock this))\<rparr>)"
proof -
  define np :: "'a CachedActionPattern" where
    "np = \<lparr>id_str = getCacheKey P u @ (str ''_'') @ string_of_int (clock this 0),
            pattern = (case label of
                         Some l \<Rightarrow> if l \<noteq> [] then l
                                   else (str ''pattern_'') @ (case extractKeywords P t of [] \<Rightarrow> (str ''undefined'') | k # ks \<Rightarrow> k)
                       | None \<Rightarrow> (str ''pattern_'') @ (case extractKeywords P t of [] \<Rightarrow> (str ''undefined'') | k # ks \<Rightarrow> k)),
            urlPattern = re, taskKeywords = extractKeywords P t, actions = acts,
            successCount = 1, failureCount = 0, lastUsed = clock this 1, confidence = 0.85\<rparr>"
  have fields: "taskKeywords np = extractKeywords P t" "actions np = acts" "confidence np = 0.85"
    "successCount np = 1" "failureCount np = 0" "lastUsed np = clock this 1"
    by (simp_all add: np_def)
  have "cacheSuccessfulPattern P this u t acts label =
                (Inr (),
                 this\<lparr>cache := (cache this)(getCacheKey P u \<mapsto>
                          (let pushed = (case cache this (getCacheKey P u) of None \<Rightarrow> [] | Some ps \<Rightarrow> ps) @ [np]
                           in if length pushed > maxCacheSize
                              then butlast (sort_key (\<lambda>p. - confidence p) pushed) else pushed)),
                      clock := advance (advance (clock this))\<rparr>)"
    using assms by (simp add: cacheSuccessfulPattern_def Let_def advance_def np_def)
  with fields show ?thesis by blast
qed

lemma scenario_A_stored:
  "cacheSuccessfulPattern example_platform (new_ActionPatternCache (frozen_clock 1000))
     example_url (str ''github portfolio'') [A1, A2] None =
   (Inr (),
    \<lparr>cache = [(str ''example.com/me'') \<mapsto>
       [\<lparr>id_str = (str ''example.com/me_1000''), pattern = (str ''pattern_github''),
         urlPattern = RegExp (str ''example.com/me''), taskKeywords = [(str ''github''), (str ''portfolio'')],
         actions = [A1, A2], successCount = 1, failureCount = 0, lastUsed = 1000,
         confidence = 0.85\<rparr>]],
     clock = frozen_clock 1000\<rparr>)"
  by (simp add: cacheSuccessfulPattern_def Let_def ex_defs)

text \<open>
  Claim C1 (scenario A). On an empty cache a pattern is stored for the page with the keywords
  \<open>github\<close> and \<open>portfolio\<close> and the actions \<open>A1, A2\<close>; the clock stands still and
  nothing happens in between. The lookup for the same page with the task
  \<open>please open my github\<close> then finds nothing: the new pattern's confidence is 0.85, and a
  lookup asks for a confidence strictly above 0.85.
\<close>

theorem scenario_A_misses:
  "fst (getCachedActions example_platform
         (snd (cacheSuccessfulPattern example_platform (new_ActionPatternCache (frozen_clock 1000))
                 example_url (str ''github portfolio'') [A1, A2] None))
         example_url (str ''please open my github'')) = None"
  by (simp add: getCachedActions_def cacheSuccessfulPattern_def Let_def ex_defs)

text \<open>
  Claim C3 says that a stored pattern never has an empty keyword list. Storing a pattern for
  the task \<open>go\<close>, which has no token longer than three code units, stores the empty list.
\<close>

theorem empty_keywords_are_stored:
  "map_option (map taskKeywords)
     (cache (snd (cacheSuccessfulPattern example_platform (new_ActionPatternCache (frozen_clock 0))
                    example_url (str ''go'') [A1] None)) (str ''example.com/me'')) = Some [[]]"
  by (simp add: cacheSuccessfulPattern_def Let_def ex_defs)

text \<open>
  Claim C3, amended. The pattern that a store call appends carries exactly the keywords that
  \<open>extractKeywords\<close> yields for the task description, also when there are none: no
  placeholder is put in their place. The key's list after the call is the old list with that
  pattern appended, after the eviction step when the list has become too long.
\<close>

theorem stored_keywords_are_extracted:
  assumes "RegExp_new P (urlToPattern P u) = Inr re"
  shows "\<exists>np. taskKeywords np = extractKeywords P t
            \<and> cache (snd (cacheSuccessfulPattern P this u t acts label)) (getCacheKey P u) =
                Some (let pushed = (case cache this (getCacheKey P u) of None \<Rightarrow> [] | Some ps \<Rightarrow> ps) @ [np]
                      in if length pushed > maxCacheSize
                         then butlast (sort_key (\<lambda>p. - confidence p) pushed) else pushed)"
proof -
  from store_returns[OF assms, of t acts this label] obtain np where
    "taskKeywords np = extractKeywords P t" and
    "cacheSuccessfulPattern P this u t acts label =
                (Inr (),
                 this\<lparr>cache := (cache this)(getCacheKey P u \<mapsto>
                          (let pushed = (case cache this (getCacheKey P u) of None \<Rightarrow> [] | Some ps \<Rightarrow> ps) @ [np]
                           in if length pushed > maxCacheSize
                              then butlast (sort_key (\<lambda>p. - confidence p) pushed) else pushed)),
                      clock := advance (advance (clock this))\<rparr>)"
    by blast
  then show ?thesis by (intro exI[of _ np]) simp
qed

text \<open>An instance: three of the four words of the task are kept, lower-cased.\<close>

theorem stored_keywords_are_extracted_witness:
  "RegExp_new example_platform (urlToPattern example_platform example_url) = Inr (RegExp (str ''example.com/me''))
   \<and> extractKeywords example_platform (str ''Open my GitHub portfolio'') = [(str ''open''), (str ''github''), (str ''portfolio'')]
   \<and> map_option (map taskKeywords)
        (cache (snd (cacheSuccessfulPattern example_platform (new_ActionPatternCache (frozen_clock 0))
                       example_url (str ''Open my GitHub portfolio'') [A1, A2] None)) (str ''example.com/me''))
       = Some [[(str ''open''), (str ''github''), (str ''portfolio'')]]"
proof -
  have h: "RegExp_new example_platform (urlToPattern example_platform example_url) = Inr (RegExp (str ''example.com/me''))"
    by (simp add: ex_defs)
  have k: "extractKeywords example_platform (str ''Open my GitHub portfolio'') = [(str ''open''), (str ''github''), (str ''portfolio'')]"
    by (simp add: ex_defs)
  have r: "map_option (map taskKeywords)
        (cache (snd (cacheSuccessfulPattern example_platform (new_ActionPatternCache (frozen_clock 0))
                       example_url (str ''Open my GitHub portfolio'') [A1, A2] None)) (str ''example.com/me''))
       = Some [[(str ''open''), (str ''github''), (str ''portfolio'')]]"
    by (simp add: cacheSuccessfulPattern_def Let_def k h, simp add: ex_defs)
  from stored_keywords_are_extracted[OF h, of "str ''Open my GitHub portfolio''" "new_ActionPatternCache (frozen_clock 0)" "[A1, A2]" None]
    h k r
  show ?thesis by simp
qed

text \<open>
  Claim C10 measures the tokens of the task description as it is given. The code measures
  them after lower-casing, and lower-casing can lengthen a token: the task made of U+0130
  twice is one token of two code units, its lower-cased form has four, so the pattern is
  stored with a keyword, and after one reported success a lookup with the same task returns
  its actions.
\<close>

theorem short_token_lengthened_by_lower_casing:
  "split_ws [0x130, 0x130] = [[0x130, 0x130]]
   \<and> map_option (map taskKeywords)
        (cache (snd (cacheSuccessfulPattern example_platform (new_ActionPatternCache (frozen_clock 0))
                       example_url [0x130, 0x130] [A1] (Some (str ''dotted''))))
           (str ''example.com/me'')) = Some [[[0x69, 0x307, 0x69, 0x307]]]
   \<and> fst (getCachedActions example_platform
            (run example_platform (new_ActionPatternCache (frozen_clock 0))
               [CacheSuccessfulPattern example_url [0x130, 0x130] [A1] (Some (str ''dotted'')),
                UpdatePatternConfidence example_url (str ''dotted'') True])
            example_url [0x130, 0x130]) = Some [A1]"
proof -
  have a: "split_ws [0x130, 0x130] = [[0x130, 0x130]]"
    by (simp add: split_ws_def isSpace_def)
  have b: "map_option (map taskKeywords)
        (cache (snd (cacheSuccessfulPattern example_platform (new_ActionPatternCache (frozen_clock 0))
                       example_url [0x130, 0x130] [A1] (Some (str ''dotted''))))
           (str ''example.com/me'')) = Some [[[0x69, 0x307, 0x69, 0x307]]]"
    by (simp add: cacheSuccessfulPattern_def Let_def ex_defs)
  have c: "fst (getCachedActions example_platform
            (run example_platform (new_ActionPatternCache (frozen_clock 0))
               [CacheSuccessfulPattern example_url [0x130, 0x130] [A1] (Some (str ''dotted'')),
                UpdatePatternConfidence example_url (str ''dotted'') True])
            example_url [0x130, 0x130]) = Some [A1]"
    by (simp add: run_def getCachedActions_def cacheSuccessfulPattern_def updatePatternConfidence_def
          Let_def ex_defs)
  from a b c show ?thesis by blast
qed

text \<open>
  Claim C10, amended. When the lower-cased task description has no white-space-separated
  token longer than three code units, keyword extraction yields nothing and the store call
  appends a pattern with an empty keyword list. In any cache, a pattern with an empty keyword
  list is never the one a lookup selects, whatever the task text: every list of actions that
  a lookup returns belongs to another pattern, one that has a keyword.
\<close>

theorem no_keywords_never_returned:
  assumes "\<forall>w \<in> set (split_ws (toLowerCase P t)). length w \<le> 3"
    and "RegExp_new P (urlToPattern P u) = Inr re"
  shows "extractKeywords P t = []
         \<and> (\<exists>np. taskKeywords np = []
                \<and> cache (snd (cacheSuccessfulPattern P this u t acts label)) (getCacheKey P u) =
                    Some (let pushed = (case cache this (getCacheKey P u) of None \<Rightarrow> [] | Some ps \<Rightarrow> ps) @ [np]
                          in if length pushed > maxCacheSize
                             then butlast (sort_key (\<lambda>p. - confidence p) pushed) else pushed))
         \<and> (\<forall>that v task ps j.
               cache that (getCacheKey P v) = Some ps \<and> j < length ps \<and> taskKeywords (ps ! j) = [] \<longrightarrow>
                 fst (findMatch (toLowerCase P task) ps (clock that)) \<noteq> Some j
                 \<and> (\<forall>found. fst (getCachedActions P that v task) = Some found \<longrightarrow>
                       (\<exists>i < length ps. i \<noteq> j \<and> taskKeywords (ps ! i) \<noteq> [] \<and> found = actions (ps ! i))))"
proof -
  from assms(1) have none: "extractKeywords P t = []" by (simp add: extractKeywords_empty_iff)
  from store_returns[OF assms(2), of t acts this label] none obtain np where
    "taskKeywords np = []" and
    "cacheSuccessfulPattern P this u t acts label =
                (Inr (),
                 this\<lparr>cache := (cache this)(getCacheKey P u \<mapsto>
                          (let pushed = (case cache this (getCacheKey P u) of None \<Rightarrow> [] | Some ps \<Rightarrow> ps) @ [np]
                           in if length pushed > maxCacheSize
                              then butlast (sort_key (\<lambda>p. - confidence p) pushed) else pushed)),
                      clock := advance (advance (clock this))\<rparr>)"
    by auto
  then have stored: "\<exists>np. taskKeywords np = []
                \<and> cache (snd (cacheSuccessfulPattern P this u t acts label)) (getCacheKey P u) =
                    Some (let pushed = (case cache this (getCacheKey P u) of None \<Rightarrow> [] | Some ps \<Rightarrow> ps) @ [np]
                          in if length pushed > maxCacheSize
                             then butlast (sort_key (\<lambda>p. - confidence p) pushed) else pushed)"
    by (intro exI[of _ np]) simp
  have later: "fst (findMatch (toLowerCase P task) ps (clock that)) \<noteq> Some j
                 \<and> (\<forall>found. fst (getCachedActions P that v task) = Some found \<longrightarrow>
                       (\<exists>i < length ps. i \<noteq> j \<and> taskKeywords (ps ! i) \<noteq> [] \<and> found = actions (ps ! i)))"
    if c: "cache that (getCacheKey P v) = Some ps" and j: "j < length ps" and e: "taskKeywords (ps ! j) = []"
    for that :: "'b ActionPatternCache" and v task ps j
  proof -
    have miss: "fst (findMatch (toLowerCase P task) ps (clock that)) \<noteq> Some j"
      using findMatch_fst[of "toLowerCase P task" ps "clock that" j] e by auto
    have "\<exists>i < length ps. i \<noteq> j \<and> taskKeywords (ps ! i) \<noteq> [] \<and> found = actions (ps ! i)"
      if "fst (getCachedActions P that v task) = Some found" for found
    proof -
      from getCachedActions_hit[OF that] c obtain i
        where i: "fst (findMatch (toLowerCase P task) ps (clock that)) = Some i" "found = actions (ps ! i)"
        by auto
      from findMatch_fst[OF i(1)] have "i < length ps" "taskKeywords (ps ! i) \<noteq> []" by auto
      with miss i show ?thesis by auto
    qed
    with miss show ?thesis by blast
  qed
  from none stored later show ?thesis by blast
qed

text \<open>
  An instance: the task \<open>GO TO it\<close> lower-cases to tokens of two code units and yields no
  keyword, and a lookup misses a pattern without keywords even when its confidence is 0.95
  and it was used just now.
\<close>

theorem no_keywords_never_returned_witness:
  "list_all (\<lambda>w. length w \<le> 3) (split_ws (toLowerCase example_platform (str ''GO TO it'')))
   \<and> extractKeywords example_platform (str ''GO TO it'') = []
   \<and> map_option (map taskKeywords)
        (cache (snd (cacheSuccessfulPattern example_platform (new_ActionPatternCache (frozen_clock 0))
                       example_url (str ''GO TO it'') [A1] None)) (str ''example.com/me'')) = Some [[]]
   \<and> fst (getCachedActions example_platform
            (example_cache [example_pattern (str ''pattern_undefined'') [] [A1] 0 0.95] (frozen_clock 0))
            example_url (str ''GO TO it'')) = None"
proof -
  have h1: "\<forall>w \<in> set (split_ws (toLowerCase example_platform (str ''GO TO it''))). length w \<le> 3"
    by (simp add: ex_defs)
  have h2: "RegExp_new example_platform (urlToPattern example_platform example_url) = Inr (RegExp (str ''example.com/me''))"
    by (simp add: ex_defs)
  have a: "list_all (\<lambda>w. length w \<le> 3) (split_ws (toLowerCase example_platform (str ''GO TO it'')))"
    by (simp add: ex_defs)
  have k: "extractKeywords example_platform (str ''GO TO it'') = []" by (simp add: ex_defs)
  have s: "map_option (map taskKeywords)
        (cache (snd (cacheSuccessfulPattern example_platform (new_ActionPatternCache (frozen_clock 0))
                       example_url (str ''GO TO it'') [A1] None)) (str ''example.com/me'')) = Some [[]]"
    by (simp add: cacheSuccessfulPattern_def Let_def k h2, simp add: ex_defs)
  have r: "fst (getCachedActions example_platform
            (example_cache [example_pattern (str ''pattern_undefined'') [] [A1] 0 0.95] (frozen_clock 0))
            example_url (str ''GO TO it'')) = None"
    by (simp add: getCachedActions_def ex_defs)
  from no_keywords_never_returned[OF h1 h2, of "new_ActionPatternCache (frozen_clock 0)" "[A1]" None] a k s r
  show ?thesis by simp
qed

lemma sorted_last_greatest:
  assumes "sorted (map f xs)" "xs \<noteq> []" "q \<in> set xs"
  shows "f q \<le> f (last xs)"
proof -
  from assms(2) have xs: "xs = butlast xs @ [last xs]" by simp
  from assms(1) have "sorted (map f (butlast xs @ [last xs]))" using xs by simp
  then have "\<forall>x \<in> set (butlast xs). f x \<le> f (last xs)" by (simp add: sorted_append)
  moreover from assms(3) xs have "q \<in> set (butlast xs) \<or> q = last xs"
    by (metis Un_iff empty_iff empty_set set_ConsD set_append)
  ultimately show ?thesis by auto
qed

text \<open>
  Claim C8. When a key already holds \<open>maxCacheSize\<close> patterns, a store call that returns
  leaves \<open>maxCacheSize\<close> patterns under the key: as multisets, the old patterns and the new
  one are the kept patterns and one more, the victim, and no pattern among the old ones and
  the new one has a confidence below the victim's.
\<close>

theorem eviction_drops_lowest:
  assumes "cache this (getCacheKey P u) = Some ps"
    and "length ps = maxCacheSize"
    and "RegExp_new P (urlToPattern P u) = Inr re"
  shows "\<exists>np victim kept.
           cache (snd (cacheSuccessfulPattern P this u t acts label)) (getCacheKey P u) = Some kept
           \<and> taskKeywords np = extractKeywords P t \<and> actions np = acts \<and> confidence np = 0.85
           \<and> length kept = maxCacheSize
           \<and> mset (ps @ [np]) = add_mset victim (mset kept)
           \<and> (\<forall>q \<in> set (ps @ [np]). confidence victim \<le> confidence q)"
proof -
  from store_returns[OF assms(3), of t acts this label] assms(1) obtain np where
    np: "taskKeywords np = extractKeywords P t" "actions np = acts" "confidence np = 0.85" and
    eq: "cacheSuccessfulPattern P this u t acts label =
                (Inr (),
                 this\<lparr>cache := (cache this)(getCacheKey P u \<mapsto>
                          (let pushed = ps @ [np]
                           in if length pushed > maxCacheSize
                              then butlast (sort_key (\<lambda>p. - confidence p) pushed) else pushed)),
                      clock := advance (advance (clock this))\<rparr>)"
    by auto
  define xs where "xs = sort_key (\<lambda>p. - confidence p) (ps @ [np])"
  have kept: "cache (snd (cacheSuccessfulPattern P this u t acts label)) (getCacheKey P u) = Some (butlast xs)"
    using assms(2) by (simp add: eq xs_def Let_def)
  have len: "length xs = Suc maxCacheSize" using assms(2) by (simp add: xs_def)
  then have ne: "xs \<noteq> []" by auto
  then have split: "xs = butlast xs @ [last xs]" by simp
  have "mset xs = mset (ps @ [np])" by (simp add: xs_def)
  with split have ms: "mset (ps @ [np]) = add_mset (last xs) (mset (butlast xs))"
    by (metis mset.simps(2) mset_append union_mset_add_mset_right add.right_neutral mset.simps(1))
  have srt: "sorted (map (\<lambda>p. - confidence p) xs)" by (simp add: xs_def)
  have low: "\<forall>q \<in> set (ps @ [np]). confidence (last xs) \<le> confidence q"
  proof
    fix q assume "q \<in> set (ps @ [np])"
    then have "q \<in> set xs" by (simp add: xs_def)
    from sorted_last_greatest[OF srt ne this] show "confidence (last xs) \<le> confidence q" by simp
  qed
  have "length (butlast xs) = maxCacheSize" using len by simp
  with kept np ms low show ?thesis by blast
qed

lemma evict_newcomer:
  assumes "confidence np \<le> confidence p"
  shows "butlast (sort_key (\<lambda>q. - confidence q) (replicate n p @ [np])) = replicate n p"
proof -
  have "sorted (map (\<lambda>q. - confidence q) (replicate n p @ [np]))"
    using assms by (simp add: sorted_append)
  then have "sort_key (\<lambda>q. - confidence q) (replicate n p @ [np]) = replicate n p @ [np]"
    by (rule sort_key_id_if_sorted)
  then show ?thesis by simp
qed

text \<open>
  An instance: with a hundred patterns of confidence 0.9 under the key, the pattern that the
  call itself appends, at 0.85, is the one that goes.
\<close>

theorem eviction_drops_lowest_witness:
  "length (replicate 100 (example_pattern (str ''old'') [(str ''github'')] [A1] 0 0.9)) = maxCacheSize
   \<and> cache (snd (cacheSuccessfulPattern example_platform
                   (example_cache (replicate 100 (example_pattern (str ''old'') [(str ''github'')] [A1] 0 0.9))
                      (frozen_clock 0))
                   example_url (str ''github portfolio'') [A2] None)) (str ''example.com/me'')
       = Some (replicate 100 (example_pattern (str ''old'') [(str ''github'')] [A1] 0 0.9))"
proof -
  let ?ps = "replicate 100 (example_pattern (str ''old'') [(str ''github'')] [A1] 0 0.9)"
  let ?c = "example_cache ?ps (frozen_clock 0)"
  have h1: "cache ?c (getCacheKey example_platform example_url) = Some ?ps"
    by (simp add: ex_defs)
  have h2: "length ?ps = maxCacheSize" by (simp add: maxCacheSize_def)
  have h3: "RegExp_new example_platform (urlToPattern example_platform example_url) = Inr (RegExp (str ''example.com/me''))"
    by (simp add: ex_defs)
  have key: "getCacheKey example_platform example_url = (str ''example.com/me'')"
    by (simp add: ex_defs)
  have r: "cache (snd (cacheSuccessfulPattern example_platform ?c example_url (str ''github portfolio'') [A2] None))
             (str ''example.com/me'') = Some ?ps"
    by (simp add: cacheSuccessfulPattern_def Let_def h3 key example_cache_def maxCacheSize_def
          evict_newcomer example_pattern_def)
  from eviction_drops_lowest[OF h1 h2 h3, of "str ''github portfolio''" "[A2]" None] h2 r
  show ?thesis by simp
qed

section \<open>Updating the confidence\<close>

lemma update_found:
  assumes "cache this (getCacheKey P u) = Some ps" "findIndex (\<lambda>x. pattern x = label) ps = Some i"
  shows "updatePatternConfidence P this u label success =
           (let p = ps ! i;
                p1 = (if success then p\<lparr>successCount := successCount p + 1\<rparr>
                      else p\<lparr>failureCount := failureCount p + 1\<rparr>);
                p2 = p1\<lparr>confidence :=
                          real (successCount p1) / real (successCount p1 + failureCount p1)
                          * (0.5 + 0.5 * exp (- real_of_int (clock this 0 - lastUsed p1)
                                               / (24 * 60 * 60 * 1000)))\<rparr>
            in this\<lparr>cache := (cache this)(getCacheKey P u \<mapsto> ps[i := p2]),
                    clock := advance (clock this)\<rparr>)"
  by (simp only: updatePatternConfidence_def Let_def assms option.case)

lemma update_not_found:
  assumes "cache this (getCacheKey P u) = None
           \<or> (\<exists>ps. cache this (getCacheKey P u) = Some ps \<and> findIndex (\<lambda>x. pattern x = label) ps = None)"
  shows "updatePatternConfidence P this u label success = this"
  using assms by (auto simp: updatePatternConfidence_def Let_def)

lemma findIndex_Some: "findIndex f xs = Some i \<Longrightarrow> i < length xs \<and> f (xs ! i)"
  by (induction xs arbitrary: i) (auto split: if_splits)

lemma new_confidence_range:
  assumes "0 \<le> dt"
  shows "0 \<le> (real s / real (s + f)) * (0.5 + 0.5 * exp (- real_of_int dt / (24 * 60 * 60 * 1000)))"
    and "(real s / real (s + f)) * (0.5 + 0.5 * exp (- real_of_int dt / (24 * 60 * 60 * 1000))) \<le> 1"
proof -
  define r where "r = real s / real (s + f)"
  define d where "d = exp (- real_of_int dt / (24 * 60 * 60 * 1000))"
  have r0: "0 \<le> r" by (simp add: r_def)
  have r1: "r \<le> 1"
  proof (cases "s + f = 0")
    case True
    then show ?thesis by (simp add: r_def)
  next
    case False
    then have "0 < s + f" by simp
    then have "0 < real (s + f)" by (simp only: of_nat_0_less_iff)
    moreover have "real s \<le> real (s + f)" by simp
    ultimately show ?thesis by (simp only: r_def divide_le_eq_1_pos)
  qed
  have d0: "0 < d" by (simp add: d_def)
  have "- real_of_int dt / (24 * 60 * 60 * 1000) \<le> 0" using assms by simp
  then have d1: "d \<le> 1" unfolding d_def by (simp only: exp_le_one_iff)
  from d0 have w0: "0 \<le> 0.5 + 0.5 * d" by simp
  from d1 have w1: "0.5 + 0.5 * d \<le> 1" by simp
  from r0 w0 have "0 \<le> r * (0.5 + 0.5 * d)" by (rule mult_nonneg_nonneg)
  then show "0 \<le> (real s / real (s + f)) * (0.5 + 0.5 * exp (- real_of_int dt / (24 * 60 * 60 * 1000)))"
    by (simp only: r_def d_def)
  from r1 w0 w1 have "r * (0.5 + 0.5 * d) \<le> 1" by (rule mult_le_one)
  then show "(real s / real (s + f)) * (0.5 + 0.5 * exp (- real_of_int dt / (24 * 60 * 60 * 1000))) \<le> 1"
    by (simp only: r_def d_def)
qed

text \<open>
  Claim C2 says that a confidence update sets \<open>lastUsed\<close> to the current time. Here the
  clock reads 5000 and the pattern was last used at 1000; after the update it still says 1000.
\<close>

theorem lastUsed_not_refreshed_by_update:
  "clock (example_cache [example_pattern (str ''gh'') [(str ''github'')] [A1] 1000 0.85] (frozen_clock 5000)) 0 = 5000
   \<and> map_option (map lastUsed)
       (cache (updatePatternConfidence example_platform
                 (example_cache [example_pattern (str ''gh'') [(str ''github'')] [A1] 1000 0.85] (frozen_clock 5000))
                 example_url (str ''gh'') True) (str ''example.com/me'')) = Some [1000]"
  by (simp add: updatePatternConfidence_def Let_def ex_defs)

text \<open>
  Claim C2, amended. For a pattern found by key and label, \<open>updatePatternConfidence\<close>
  raises one of the two counts, computes the decay factor from the pattern's \<open>lastUsed\<close>
  and the clock, and sets the confidence to the success rate times \<open>0.5 + 0.5 * decay\<close>. It
  leaves \<open>lastUsed\<close> of every pattern of the key as it was: a confidence update does not
  refresh it.
\<close>

theorem updatePatternConfidence_keeps_lastUsed:
  assumes "cache this (getCacheKey P u) = Some ps"
    and "findIndex (\<lambda>x. pattern x = label) ps = Some i"
  shows "\<exists>ps'. cache (updatePatternConfidence P this u label success) (getCacheKey P u) = Some ps'
           \<and> map lastUsed ps' = map lastUsed ps
           \<and> successCount (ps' ! i) = successCount (ps ! i) + (if success then 1 else 0)
           \<and> failureCount (ps' ! i) = failureCount (ps ! i) + (if success then 0 else 1)
           \<and> confidence (ps' ! i) =
               real (successCount (ps' ! i)) / real (successCount (ps' ! i) + failureCount (ps' ! i))
               * (0.5 + 0.5 * exp (- real_of_int (clock this 0 - lastUsed (ps ! i)) / (24 * 60 * 60 * 1000)))"
proof -
  define p1 where "p1 = (if success then (ps ! i)\<lparr>successCount := successCount (ps ! i) + 1\<rparr>
                         else (ps ! i)\<lparr>failureCount := failureCount (ps ! i) + 1\<rparr>)"
  define c where "c = real (successCount p1) / real (successCount p1 + failureCount p1)
                        * (0.5 + 0.5 * exp (- real_of_int (clock this 0 - lastUsed p1)
                                             / (24 * 60 * 60 * 1000)))"
  have eq: "updatePatternConfidence P this u label success =
              this\<lparr>cache := (cache this)(getCacheKey P u \<mapsto> ps[i := p1\<lparr>confidence := c\<rparr>]),
                   clock := advance (clock this)\<rparr>"
    unfolding c_def p1_def by (simp only: update_found[OF assms] Let_def)
  from findIndex_Some[OF assms(2)] have i: "i < length ps" by simp
  have l1: "lastUsed p1 = lastUsed (ps ! i)" by (simp add: p1_def)
  have s1: "successCount p1 = successCount (ps ! i) + (if success then 1 else 0)" by (simp add: p1_def)
  have f1: "failureCount p1 = failureCount (ps ! i) + (if success then 0 else 1)" by (simp add: p1_def)
  have used: "map lastUsed (ps[i := p1\<lparr>confidence := c\<rparr>]) = map lastUsed ps"
    using i l1 by (simp add: map_update list_update_same_conv)
  have at: "ps[i := p1\<lparr>confidence := c\<rparr>] ! i = p1\<lparr>confidence := c\<rparr>" using i by simp
  have cache': "cache (updatePatternConfidence P this u label success) (getCacheKey P u)
                  = Some (ps[i := p1\<lparr>confidence := c\<rparr>])"
    by (simp add: eq)
  have conf: "confidence (ps[i := p1\<lparr>confidence := c\<rparr>] ! i) =
               real (successCount (ps[i := p1\<lparr>confidence := c\<rparr>] ! i))
                 / real (successCount (ps[i := p1\<lparr>confidence := c\<rparr>] ! i)
                         + failureCount (ps[i := p1\<lparr>confidence := c\<rparr>] ! i))
               * (0.5 + 0.5 * exp (- real_of_int (clock this 0 - lastUsed (ps ! i)) / (24 * 60 * 60 * 1000)))"
    unfolding at by (simp add: c_def l1)
  from cache' used conf s1 f1 at show ?thesis by (intro exI[of _ "ps[i := p1\<lparr>confidence := c\<rparr>]"]) simp
qed

text \<open>
  An instance: one failure reported at the moment of last use halves the confidence and
  leaves \<open>lastUsed\<close> at 1000.
\<close>

theorem updatePatternConfidence_keeps_lastUsed_witness:
  "findIndex (\<lambda>x. pattern x = (str ''gh'')) [example_pattern (str ''gh'') [(str ''github'')] [A1] 1000 0.85] = Some 0
   \<and> map_option (map lastUsed)
        (cache (updatePatternConfidence example_platform
                 (example_cache [example_pattern (str ''gh'') [(str ''github'')] [A1] 1000 0.85] (frozen_clock 1000))
                 example_url (str ''gh'') False) (str ''example.com/me'')) = Some [1000]
   \<and> map_option (map confidence)
        (cache (updatePatternConfidence example_platform
                 (example_cache [example_pattern (str ''gh'') [(str ''github'')] [A1] 1000 0.85] (frozen_clock 1000))
                 example_url (str ''gh'') False) (str ''example.com/me'')) = Some [1 / 2]"
proof -
  let ?ps = "[example_pattern (str ''gh'') [(str ''github'')] [A1] 1000 0.85]"
  let ?c = "example_cache ?ps (frozen_clock 1000)"
  have h1: "cache ?c (getCacheKey example_platform example_url) = Some ?ps"
    by (simp add: ex_defs)
  have h2: "findIndex (\<lambda>x. pattern x = (str ''gh'')) ?ps = Some 0"
    by (simp add: example_pattern_def)
  have r: "cache (updatePatternConfidence example_platform ?c example_url (str ''gh'') False) (str ''example.com/me'')
             = Some [(example_pattern (str ''gh'') [(str ''github'')] [A1] 1000 0.85)\<lparr>failureCount := 1, confidence := 1 / 2\<rparr>]"
    by (simp add: updatePatternConfidence_def Let_def ex_defs)
  from updatePatternConfidence_keeps_lastUsed[OF h1 h2, of False] h2 r
  show ?thesis by (simp add: example_pattern_def)
qed

section \<open>Sequences of calls: the size bound\<close>

lemma bounded_getCachedActions: "bounded this \<Longrightarrow> bounded (snd (getCachedActions P this u t))"
  by (auto simp: bounded_def getCachedActions_def split: option.splits prod.splits if_splits)

lemma bounded_cacheSuccessfulPattern:
  assumes "bounded this"
  shows "bounded (snd (cacheSuccessfulPattern P this u t acts label))"
proof (cases "RegExp_new P (urlToPattern P u)")
  case (Inl e)
  with assms show ?thesis by (simp add: store_throws bounded_def)
next
  case (Inr re)
  from store_returns[OF Inr, of t acts this label] obtain np where
    eq: "cacheSuccessfulPattern P this u t acts label =
                (Inr (),
                 this\<lparr>cache := (cache this)(getCacheKey P u \<mapsto>
                          (let pushed = (case cache this (getCacheKey P u) of None \<Rightarrow> [] | Some ps \<Rightarrow> ps) @ [np]
                           in if length pushed > maxCacheSize
                              then butlast (sort_key (\<lambda>p. - confidence p) pushed) else pushed)),
                      clock := advance (advance (clock this))\<rparr>)"
    by blast
  have old: "length (case cache this (getCacheKey P u) of None \<Rightarrow> [] | Some ps \<Rightarrow> ps) \<le> maxCacheSize"
    using assms by (auto simp: bounded_def split: option.splits)
  show ?thesis
    unfolding eq using assms old by (auto simp: bounded_def Let_def)
qed

lemma bounded_updatePatternConfidence:
  "bounded this \<Longrightarrow> bounded (updatePatternConfidence P this u label success)"
  by (auto simp: bounded_def updatePatternConfidence_def Let_def split: option.splits if_splits)

lemma bounded_perform: "bounded this \<Longrightarrow> bounded (perform P this c)"
  by (cases c)
     (simp_all add: bounded_getCachedActions bounded_cacheSuccessfulPattern
        bounded_updatePatternConfidence, auto simp: bounded_def clearUrlCache_def clearAll_def)

lemma bounded_run: "bounded this \<Longrightarrow> bounded (run P this cs)"
  unfolding run_def by (induction cs arbitrary: this) (simp_all add: bounded_perform)

text \<open>
  Claim C4. Starting from the empty cache, after any finite sequence of calls (stores,
  lookups, confidence updates and clears, in any order) no key holds more than
  \<open>maxCacheSize\<close> patterns.
\<close>

theorem size_bounded:
  assumes "cache (run P (new_ActionPatternCache clk) cs) k = Some ps"
  shows "length ps \<le> maxCacheSize"
proof -
  have "bounded (new_ActionPatternCache clk :: 'a ActionPatternCache)"
    by (simp add: bounded_def new_ActionPatternCache_def)
  then have "bounded (run P (new_ActionPatternCache clk) cs)" by (rule bounded_run)
  with assms show ?thesis by (simp add: bounded_def)
qed

text \<open>An instance: two stores, a clear, a store and a lookup leave one pattern under the key.\<close>

theorem size_bounded_witness:
  "cache (run example_platform (new_ActionPatternCache (frozen_clock 0))
            [CacheSuccessfulPattern example_url (str ''github portfolio'') [A1, A2] None,
             CacheSuccessfulPattern example_url (str ''github portfolio'') [A1, A2] (Some (str ''again'')),
             ClearUrlCache example_url,
             CacheSuccessfulPattern example_url (str ''github portfolio'') [A1, A2] None,
             GetCachedActions example_url (str ''open my github'')])
        (str ''example.com/me'')
     = Some [example_pattern (str ''pattern_github'') [(str ''github''), (str ''portfolio'')] [A1, A2] 0 0.85]
   \<and> length [example_pattern (str ''pattern_github'') [(str ''github''), (str ''portfolio'')] [A1, A2] 0 0.85] \<le> maxCacheSize"
proof -
  have h: "cache (run example_platform (new_ActionPatternCache (frozen_clock 0))
            [CacheSuccessfulPattern example_url (str ''github portfolio'') [A1, A2] None,
             CacheSuccessfulPattern example_url (str ''github portfolio'') [A1, A2] (Some (str ''again'')),
             ClearUrlCache example_url,
             CacheSuccessfulPattern example_url (str ''github portfolio'') [A1, A2] None,
             GetCachedActions example_url (str ''open my github'')])
        (str ''example.com/me'')
     = Some [example_pattern (str ''pattern_github'') [(str ''github''), (str ''portfolio'')] [A1, A2] 0 0.85]"
    by (simp add: run_def cacheSuccessfulPattern_def getCachedActions_def clearUrlCache_def Let_def ex_defs)
  from size_bounded[OF h] h show ?thesis by simp
qed

section \<open>Sequences of calls: the range of the confidence\<close>

lemma nondecreasing_le: "nondecreasing clk \<Longrightarrow> m \<le> n \<Longrightarrow> clk m \<le> clk n"
  unfolding nondecreasing_def by (rule lift_Suc_mono_le) auto

lemma nondecreasing_advance: "nondecreasing clk \<Longrightarrow> nondecreasing (advance clk)"
  by (simp add: nondecreasing_def advance_def)

lemma in_range_getCachedActions:
  assumes "nondecreasing (clock this)" "in_range this"
  shows "nondecreasing (clock (snd (getCachedActions P this u t))) \<and> in_range (snd (getCachedActions P this u t))"
proof (cases "cache this (getCacheKey P u)")
  case None
  with assms show ?thesis by (simp add: getCachedActions_def)
next
  case (Some ps)
  obtain r clk' where fm: "findMatch (toLowerCase P t) ps (clock this) = (r, clk')" by (cases "findMatch (toLowerCase P t) ps (clock this)")
  from findMatch_clock[of "toLowerCase P t" ps "clock this"] fm obtain m where
    clk': "clk' = (\<lambda>n. clock this (n + m))" by auto
  have mono': "nondecreasing clk'" using assms(1) by (simp add: clk' nondecreasing_def)
  have old: "\<forall>k qs. cache this k = Some qs \<longrightarrow>
        (\<forall>p \<in> set qs. 0 \<le> confidence p \<and> confidence p \<le> 1 \<and> (\<forall>n. lastUsed p \<le> clk' n) \<and> (\<forall>n. lastUsed p \<le> advance clk' n))"
    using assms(2) by (auto simp: in_range_def clk' advance_def)
  show ?thesis
  proof (cases r)
    case None
    with Some fm have "snd (getCachedActions P this u t) = this\<lparr>clock := clk'\<rparr>"
      by (simp add: getCachedActions_def)
    with mono' old show ?thesis by (auto simp: in_range_def)
  next
    case (Some i)
    with \<open>cache this (getCacheKey P u) = Some ps\<close> fm
    have eq: "snd (getCachedActions P this u t) =
       this\<lparr>cache := (cache this)(getCacheKey P u \<mapsto> ps[i := (ps ! i)\<lparr>lastUsed := clk' 0\<rparr>]),
            clock := advance clk'\<rparr>"
      by (simp add: getCachedActions_def)
    from fm Some have i: "i < length ps" using findMatch_index by blast
    have fresh: "\<forall>n. clk' 0 \<le> advance clk' n"
      using nondecreasing_le[OF mono'] by (simp add: advance_def)
    have pi: "0 \<le> confidence (ps ! i) \<and> confidence (ps ! i) \<le> 1"
      using old \<open>cache this (getCacheKey P u) = Some ps\<close> i by (meson nth_mem)
    have "in_range (snd (getCachedActions P this u t))"
      unfolding eq in_range_def
    proof (intro allI impI ballI)
      fix k qs p
      assume c: "cache (this\<lparr>cache := (cache this)(getCacheKey P u \<mapsto> ps[i := (ps ! i)\<lparr>lastUsed := clk' 0\<rparr>]),
            clock := advance clk'\<rparr>) k = Some qs" and p: "p \<in> set qs"
      show "0 \<le> confidence p \<and> confidence p \<le> 1 \<and> (\<forall>n. lastUsed p \<le> clock (this\<lparr>cache := (cache this)(getCacheKey P u \<mapsto> ps[i := (ps ! i)\<lparr>lastUsed := clk' 0\<rparr>]),
            clock := advance clk'\<rparr>) n)"
      proof (cases "k = getCacheKey P u")
        case True
        with c have "qs = ps[i := (ps ! i)\<lparr>lastUsed := clk' 0\<rparr>]" by simp
        with p have "p = (ps ! i)\<lparr>lastUsed := clk' 0\<rparr> \<or> p \<in> set ps"
          using set_update_subset_insert[of ps i] by auto
        then show ?thesis
        proof
          assume "p = (ps ! i)\<lparr>lastUsed := clk' 0\<rparr>"
          with pi fresh show ?thesis by simp
        next
          assume "p \<in> set ps"
          with old \<open>cache this (getCacheKey P u) = Some ps\<close> show ?thesis by simp
        qed
      next
        case False
        with c have "cache this k = Some qs" by simp
        with old p show ?thesis by simp
      qed
    qed
    moreover have "nondecreasing (clock (snd (getCachedActions P this u t)))"
      unfolding eq using mono' by (simp add: nondecreasing_advance)
    ultimately show ?thesis by simp
  qed
qed

lemma in_range_cacheSuccessfulPattern:
  assumes "nondecreasing (clock this)" "in_range this"
  shows "nondecreasing (clock (snd (cacheSuccessfulPattern P this u t acts label)))
         \<and> in_range (snd (cacheSuccessfulPattern P this u t acts label))"
proof (cases "RegExp_new P (urlToPattern P u)")
  case (Inl e)
  with assms show ?thesis
    by (auto simp: store_throws in_range_def nondecreasing_def advance_def)
next
  case (Inr re)
  let ?old = "case cache this (getCacheKey P u) of None \<Rightarrow> [] | Some ps \<Rightarrow> ps"
  from store_returns[OF Inr, of t acts this label] obtain np where
    np: "confidence np = 0.85" "lastUsed np = clock this 1" and
    eq: "cacheSuccessfulPattern P this u t acts label =
                (Inr (),
                 this\<lparr>cache := (cache this)(getCacheKey P u \<mapsto>
                          (let pushed = ?old @ [np]
                           in if length pushed > maxCacheSize
                              then butlast (sort_key (\<lambda>p. - confidence p) pushed) else pushed)),
                      clock := advance (advance (clock this))\<rparr>)"
    by blast
  let ?kept = "(let pushed = ?old @ [np]
                           in if length pushed > maxCacheSize
                              then butlast (sort_key (\<lambda>p. - confidence p) pushed) else pushed)"
  have sub: "set ?kept \<subseteq> insert np (set ?old)"
    by (auto simp: Let_def dest: in_set_butlastD)
  have oldok: "\<forall>p \<in> set ?old. 0 \<le> confidence p \<and> confidence p \<le> 1 \<and> (\<forall>n. lastUsed p \<le> clock this n)"
  proof (cases "cache this (getCacheKey P u)")
    case None
    then show ?thesis by simp
  next
    case (Some ps)
    with assms(2) show ?thesis unfolding in_range_def by force
  qed
  have later: "clock this 1 \<le> clock this (Suc (Suc n))" for n
    using nondecreasing_le[OF assms(1), of 1 "Suc (Suc n)"] by simp
  have "in_range (snd (cacheSuccessfulPattern P this u t acts label))"
    unfolding in_range_def
  proof (intro allI impI ballI)
    fix k qs p
    assume c: "cache (snd (cacheSuccessfulPattern P this u t acts label)) k = Some qs" and p: "p \<in> set qs"
    have clk: "clock (snd (cacheSuccessfulPattern P this u t acts label)) n = clock this (Suc (Suc n))" for n
      by (simp add: eq advance_def)
    have "0 \<le> confidence p \<and> confidence p \<le> 1 \<and> (\<forall>n. lastUsed p \<le> clock this (Suc (Suc n)))"
    proof (cases "k = getCacheKey P u")
      case True
      with c have "qs = ?kept" by (simp add: eq)
      with p sub have "p = np \<or> p \<in> set ?old" by blast
      then show ?thesis
      proof
        assume "p = np"
        with np later show ?thesis by simp
      next
        assume "p \<in> set ?old"
        with oldok show ?thesis by blast
      qed
    next
      case False
      with c have "cache this k = Some qs" by (simp add: eq)
      with assms(2) p show ?thesis by (auto simp: in_range_def)
    qed
    then show "0 \<le> confidence p \<and> confidence p \<le> 1
        \<and> (\<forall>n. lastUsed p \<le> clock (snd (cacheSuccessfulPattern P this u t acts label)) n)"
      by (simp add: clk)
  qed
  moreover have "nondecreasing (clock (snd (cacheSuccessfulPattern P this u t acts label)))"
    using assms(1) by (simp add: eq nondecreasing_advance)
  ultimately show ?thesis by simp
qed

lemma in_range_updatePatternConfidence:
  assumes "nondecreasing (clock this)" "in_range this"
  shows "nondecreasing (clock (updatePatternConfidence P this u label success))
         \<and> in_range (updatePatternConfidence P this u label success)"
proof (cases "cache this (getCacheKey P u)")
  case None
  then show ?thesis using assms by (simp add: update_not_found)
next
  case (Some ps)
  show ?thesis
  proof (cases "findIndex (\<lambda>x. pattern x = label) ps")
    case None
    with Some assms show ?thesis by (simp add: update_not_found)
  next
    case (Some i)
    note eq = update_found[OF \<open>cache this (getCacheKey P u) = Some ps\<close> Some, of success]
    from findIndex_Some[OF Some] have i: "i < length ps" by simp
    then have mem: "ps ! i \<in> set ps" by simp
    with assms(2) \<open>cache this (getCacheKey P u) = Some ps\<close>
    have pi: "\<forall>n. lastUsed (ps ! i) \<le> clock this n" by (auto simp: in_range_def)
    then have dt: "0 \<le> clock this 0 - lastUsed (ps ! i)" by simp
    define p1 where "p1 = (if success then (ps ! i)\<lparr>successCount := successCount (ps ! i) + 1\<rparr>
                           else (ps ! i)\<lparr>failureCount := failureCount (ps ! i) + 1\<rparr>)"
    define c where "c = real (successCount p1) / real (successCount p1 + failureCount p1)
                          * (0.5 + 0.5 * exp (- real_of_int (clock this 0 - lastUsed p1)
                                               / (24 * 60 * 60 * 1000)))"
    have l1: "lastUsed p1 = lastUsed (ps ! i)" by (simp add: p1_def)
    have c01: "0 \<le> c \<and> c \<le> 1"
      unfolding c_def using new_confidence_range[of "clock this 0 - lastUsed p1"] dt l1 by simp
    have eq: "updatePatternConfidence P this u label success =
                this\<lparr>cache := (cache this)(getCacheKey P u \<mapsto> ps[i := p1\<lparr>confidence := c\<rparr>]),
                     clock := advance (clock this)\<rparr>"
      unfolding c_def p1_def by (simp only: eq Let_def)
    have p2: "0 \<le> confidence (p1\<lparr>confidence := c\<rparr>) \<and> confidence (p1\<lparr>confidence := c\<rparr>) \<le> 1
               \<and> (\<forall>n. lastUsed (p1\<lparr>confidence := c\<rparr>) \<le> clock this n)"
      using c01 pi l1 by simp
    have "in_range (updatePatternConfidence P this u label success)"
      unfolding in_range_def
    proof (intro allI impI ballI)
      fix k qs p
      assume c: "cache (updatePatternConfidence P this u label success) k = Some qs" and p: "p \<in> set qs"
      have clk: "clock (updatePatternConfidence P this u label success) n = clock this (Suc n)" for n
        by (simp add: eq advance_def)
      have "0 \<le> confidence p \<and> confidence p \<le> 1 \<and> (\<forall>n. lastUsed p \<le> clock this n)"
      proof (cases "k = getCacheKey P u")
        case True
        with c have "qs = ps[i := (p1\<lparr>confidence := c\<rparr>)]" by (simp add: eq)
        with p have "p = (p1\<lparr>confidence := c\<rparr>) \<or> p \<in> set ps" using set_update_subset_insert[of ps i "p1\<lparr>confidence := c\<rparr>"] by blast
        then show ?thesis
        proof
          assume "p = (p1\<lparr>confidence := c\<rparr>)"
          with p2 show ?thesis by simp
        next
          assume "p \<in> set ps"
          with assms(2) \<open>cache this (getCacheKey P u) = Some ps\<close> show ?thesis by (auto simp: in_range_def)
        qed
      next
        case False
        with c have "cache this k = Some qs" by (simp add: eq)
        with assms(2) p show ?thesis by (auto simp: in_range_def)
      qed
      then show "0 \<le> confidence p \<and> confidence p \<le> 1
          \<and> (\<forall>n. lastUsed p \<le> clock (updatePatternConfidence P this u label success) n)"
        by (simp add: clk)
    qed
    moreover have "nondecreasing (clock (updatePatternConfidence P this u label success))"
      using assms(1) by (simp add: eq nondecreasing_advance)
    ultimately show ?thesis by simp
  qed
qed

lemma in_range_perform:
  assumes "nondecreasing (clock this)" "in_range this"
  shows "nondecreasing (clock (perform P this c)) \<and> in_range (perform P this c)"
proof (cases c)
  case (GetCachedActions u t)
  with in_range_getCachedActions[OF assms] show ?thesis by simp
next
  case (CacheSuccessfulPattern u t acts label)
  with in_range_cacheSuccessfulPattern[OF assms] show ?thesis by simp
next
  case (UpdatePatternConfidence u label success)
  with in_range_updatePatternConfidence[OF assms] show ?thesis by simp
next
  case (ClearUrlCache u)
  with assms show ?thesis by (auto simp: clearUrlCache_def in_range_def split: if_splits)
next
  case ClearAll
  with assms show ?thesis by (simp add: clearAll_def in_range_def)
qed

lemma in_range_run:
  "nondecreasing (clock this) \<Longrightarrow> in_range this \<Longrightarrow>
     nondecreasing (clock (run P this cs)) \<and> in_range (run P this cs)"
  unfolding run_def
proof (induction cs arbitrary: this)
  case Nil
  then show ?case by simp
next
  case (Cons c cs)
  from in_range_perform[OF Cons.prems, of P c] Cons.IH[of "perform P this c"]
  show ?case by simp
qed

text \<open>
  Claim C5 lets the elapsed time be anything. The code takes it as the difference of two
  clock readings and does not clamp it: when the clock steps back by one millisecond between
  the store and a reported success, the decay factor is above 1 and so is the confidence.
\<close>

theorem confidence_above_one_when_clock_steps_back:
  "map_option (map confidence)
     (cache (run example_platform (new_ActionPatternCache (jump_clock 2 1 0))
               [CacheSuccessfulPattern example_url (str ''github portfolio'') [A1, A2] (Some (str ''gh'')),
                UpdatePatternConfidence example_url (str ''gh'') True])
        (str ''example.com/me'')) = Some [1 / 2 + exp (1 / 86400000) / 2]
   \<and> (1 :: real) < 1 / 2 + exp (1 / 86400000) / 2"
proof -
  have a: "map_option (map confidence)
     (cache (run example_platform (new_ActionPatternCache (jump_clock 2 1 0))
               [CacheSuccessfulPattern example_url (str ''github portfolio'') [A1, A2] (Some (str ''gh'')),
                UpdatePatternConfidence example_url (str ''gh'') True])
        (str ''example.com/me'')) = Some [1 / 2 + exp (1 / 86400000) / 2]"
    by (simp add: run_def cacheSuccessfulPattern_def updatePatternConfidence_def Let_def ex_defs)
  have "(1 :: real) < exp (1 / 86400000)" by simp
  then have b: "(1 :: real) < 1 / 2 + exp (1 / 86400000) / 2" by linarith
  from a b show ?thesis by blast
qed

text \<open>
  Claim C5, amended. When the clock never runs backwards, so that every elapsed time is at
  least 0, then starting from the empty cache and after any finite sequence of calls, with any
  success flags, every stored pattern has a confidence between 0 and 1. (The success rate is
  between 0 and 1, the decay factor is above 0 and at most 1, and the new confidence is the
  rate times \<open>0.5 + 0.5 * decay\<close>.)
\<close>

theorem confidence_in_unit_interval:
  assumes "nondecreasing clk"
    and "cache (run P (new_ActionPatternCache clk) cs) k = Some ps"
    and "p \<in> set ps"
  shows "0 \<le> confidence p \<and> confidence p \<le> 1"
proof -
  have "in_range (new_ActionPatternCache clk :: 'a ActionPatternCache)"
    by (simp add: in_range_def new_ActionPatternCache_def)
  moreover have "nondecreasing (clock (new_ActionPatternCache clk :: 'a ActionPatternCache))"
    using assms(1) by (simp add: new_ActionPatternCache_def)
  ultimately have "in_range (run P (new_ActionPatternCache clk :: 'a ActionPatternCache) cs)"
    using in_range_run by blast
  with assms(2,3) show ?thesis by (auto simp: in_range_def)
qed

text \<open>
  An instance: a store and two reported failures with no time elapsed leave the confidence
  at one third.
\<close>

theorem confidence_in_unit_interval_witness:
  "nondecreasing (frozen_clock 0)
   \<and> map_option (map confidence)
       (cache (run example_platform (new_ActionPatternCache (frozen_clock 0))
                 [CacheSuccessfulPattern example_url (str ''github portfolio'') [A1, A2] None,
                  UpdatePatternConfidence example_url (str ''pattern_github'') False,
                  UpdatePatternConfidence example_url (str ''pattern_github'') False])
          (str ''example.com/me'')) = Some [1 / 3]
   \<and> (0::real) \<le> 1 / 3 \<and> (1 / 3 :: real) \<le> 1"
proof -
  let ?p = "(example_pattern (str ''pattern_github'') [(str ''github''), (str ''portfolio'')] [A1, A2] 0 0.85)
              \<lparr>failureCount := 2, confidence := 1 / 3\<rparr>"
  have h1: "nondecreasing (frozen_clock 0)" by (simp add: nondecreasing_def frozen_clock_def)
  have h2: "cache (run example_platform (new_ActionPatternCache (frozen_clock 0))
                 [CacheSuccessfulPattern example_url (str ''github portfolio'') [A1, A2] None,
                  UpdatePatternConfidence example_url (str ''pattern_github'') False,
                  UpdatePatternConfidence example_url (str ''pattern_github'') False])
          (str ''example.com/me'') = Some [?p]"
    by (simp add: run_def cacheSuccessfulPattern_def updatePatternConfidence_def Let_def ex_defs)
  have h3: "?p \<in> set [?p]" by simp
  from confidence_in_unit_interval[OF h1 h2 h3] h1 h2 show ?thesis
    by (simp add: example_pattern_def)
qed

end
